theory Spec2Isabelle
  imports Main "HOL-Library.Sublist"
begin

section \<open>JavaScript strings\<close>

text \<open>
  The backend (\<^verbatim>\<open>src/backend/server.js\<close>) works on JavaScript strings. A string is
  modelled as a \<^typ>\<open>string\<close> whose characters are the Latin-1 code units 0..255, on
  which the built-in operations used by the server (\<^verbatim>\<open>toLowerCase\<close>, \<^verbatim>\<open>trim\<close>,
  \<^verbatim>\<open>split\<close>, \<^verbatim>\<open>includes\<close>, \<^verbatim>\<open>indexOf\<close>, \<^verbatim>\<open>replace\<close>, \<^verbatim>\<open>join\<close>) are length preserving
  per character and are written out below. Values that are not strings
  (\<^verbatim>\<open>undefined\<close>, numbers, objects) are outside the model.
\<close>

definition code :: "char \<Rightarrow> nat" where
  "code c = of_char c"

definition backslash :: char where
  "backslash = CHR 0x5C"

definition newline :: char where
  "newline = CHR 0x0A"

text \<open>ECMAScript WhiteSpace and LineTerminator code units below 256 (what \<^verbatim>\<open>trim\<close> strips
  and what \<^verbatim>\<open>\s\<close> matches): TAB, LF, VT, FF, CR, SP, NBSP.\<close>

definition isWhiteSpace :: "char \<Rightarrow> bool" where
  "isWhiteSpace c = (code c \<in> {9, 10, 11, 12, 13, 32, 160})"

text \<open>\<^verbatim>\<open>String.prototype.toLowerCase\<close> on one Latin-1 code unit: A-Z and the accented capitals
  U+00C0..U+00DE (the multiplication sign U+00D7 apart) move up by 32.\<close>

definition toLowerCase_char :: "char \<Rightarrow> char" where
  "toLowerCase_char c =
     (if (65 \<le> code c \<and> code c \<le> 90) \<or> (192 \<le> code c \<and> code c \<le> 222 \<and> code c \<noteq> 215)
      then char_of (code c + 32) else c)"

definition toLowerCase :: "string \<Rightarrow> string" where
  "toLowerCase s = map toLowerCase_char s"

definition trim :: "string \<Rightarrow> string" where
  "trim s = rev (dropWhile isWhiteSpace (rev (dropWhile isWhiteSpace s)))"

text \<open>\<^verbatim>\<open>s.includes(sub)\<close>: \<^verbatim>\<open>sub\<close> occurs in \<^verbatim>\<open>s\<close> as a contiguous substring.\<close>

fun includes_str :: "string \<Rightarrow> string \<Rightarrow> bool" where
  "includes_str [] sub = (sub = [])"
| "includes_str (c # cs) sub = (prefix sub (c # cs) \<or> includes_str cs sub)"

text \<open>\<^verbatim>\<open>s.indexOf(sub)\<close>: the index of the first occurrence, or -1.\<close>

fun indexOf_from :: "nat \<Rightarrow> string \<Rightarrow> string \<Rightarrow> int" where
  "indexOf_from i [] sub = (if sub = [] then int i else - 1)"
| "indexOf_from i (c # cs) sub =
     (if prefix sub (c # cs) then int i else indexOf_from (Suc i) cs sub)"

definition indexOf :: "string \<Rightarrow> string \<Rightarrow> int" where
  "indexOf s sub = indexOf_from 0 s sub"

text \<open>\<^verbatim>\<open>text.split(/[.\n]/)\<close>: every period and every line feed ends a segment; the empty
  string gives one empty segment.\<close>

definition isSegmentBreak :: "char \<Rightarrow> bool" where
  "isSegmentBreak c = (c = CHR ''.'' \<or> c = newline)"

fun split_segments :: "string \<Rightarrow> string list" where
  "split_segments [] = [[]]"
| "split_segments (c # cs) =
     (if isSegmentBreak c then [] # split_segments cs
      else (case split_segments cs of
              [] \<Rightarrow> [[c]]
            | w # ws \<Rightarrow> (c # w) # ws))"

text \<open>\<^verbatim>\<open>s.split(/\s+/)\<close>: every maximal run of white space is one separator.\<close>

function split_whitespace :: "string \<Rightarrow> string list" where
  "split_whitespace [] = [[]]"
| "split_whitespace (c # cs) =
     (if isWhiteSpace c then [] # split_whitespace (dropWhile isWhiteSpace cs)
      else (case split_whitespace cs of
              [] \<Rightarrow> [[c]]
            | w # ws \<Rightarrow> (c # w) # ws))"
  by pat_completeness auto
termination
  by (relation "measure length") (auto simp: length_dropWhile_le less_Suc_eq_le)

text \<open>\<^verbatim>\<open>words.join(sep)\<close>.\<close>

fun join :: "string \<Rightarrow> string list \<Rightarrow> string" where
  "join sep [] = []"
| "join sep [w] = w"
| "join sep (w # ws) = w @ sep @ join sep ws"

text \<open>\<^verbatim>\<open>s.replace(/[^a-z0-9]/g, '')\<close>.\<close>

definition isLowerAlnum :: "char \<Rightarrow> bool" where
  "isLowerAlnum c = ((97 \<le> code c \<and> code c \<le> 122) \<or> (48 \<le> code c \<and> code c \<le> 57))"

definition strip_non_alnum :: "string \<Rightarrow> string" where
  "strip_non_alnum s = filter isLowerAlnum s"


section \<open>Regular expressions\<close>

text \<open>
  \<^verbatim>\<open>new RegExp(pattern, 'i')\<close> and \<^verbatim>\<open>regex.test(s)\<close> are built-ins of the language. They
  are modelled after ECMAScript (Annex B syntax, no \<^verbatim>\<open>u\<close> flag) for the patterns made of:
  pattern characters, \<^verbatim>\<open>.\<close>, character classes with ranges and negation, the class escapes
  \<^verbatim>\<open>\d \D \s \S \w \W\<close>, the control escapes \<^verbatim>\<open>\f \n \r \t \v\<close>, identity escapes, the
  assertions \<^verbatim>\<open>^ $ \b \B\<close>, groups \<^verbatim>\<open>( )\<close> and \<^verbatim>\<open>(?: )\<close>, alternation and the quantifiers
  \<^verbatim>\<open>* + ?\<close> (greedy or lazy). For these \<^verbatim>\<open>test\<close> only asks whether some substring is in
  the language of the pattern, so captures and the order of backtracking play no role.
  A pattern that uses anything else (a brace outside a class, \<^verbatim>\<open>(?\<close> other than \<^verbatim>\<open>(?:\<close>,
  a backslash before a digit or before \<^verbatim>\<open>c x u k\<close>) is reported as \<open>Unmodelled\<close>: the model
  says nothing about it.
\<close>

datatype js_error = SyntaxError

datatype 'a completion = Returned 'a | Thrown js_error | Unmodelled

text \<open>Sequencing: an exception (or leaving the modelled patterns) ends the computation.\<close>

fun bind :: "'a completion \<Rightarrow> ('a \<Rightarrow> 'b completion) \<Rightarrow> 'b completion" where
  "bind (Returned x) f = f x"
| "bind (Thrown e) f = Thrown e"
| "bind Unmodelled f = Unmodelled"

lemma bind_cong [fundef_cong]:
  "m = m' \<Longrightarrow> (\<And>x. m' = Returned x \<Longrightarrow> f x = f' x) \<Longrightarrow> bind m f = bind m' f'"
  by (cases m') auto

lemma bind_eq_Returned:
  "bind m f = Returned y \<longleftrightarrow> (\<exists>x. m = Returned x \<and> f x = Returned y)"
  by (cases m) auto

datatype class_escape = Digit | NonDigit | Space | NonSpace | WordChar | NonWordChar

datatype class_item = CChar char | CRange char char | CEsc class_escape

datatype regex =
    Empty
  | Chr char
  | Dot
  | Cls bool "class_item list"
  | Esc class_escape
  | Bol
  | Eol
  | WordB bool
  | Seq regex regex
  | Alt regex regex
  | Star regex
  | Plus regex
  | Opt regex
  | Group regex

subsection \<open>Reading a pattern\<close>

datatype quantifier = QStar | QPlus | QOpt

datatype token =
    TAtom regex
  | TAssert regex
  | TQuant quantifier
  | TOpen
  | TClose
  | TBar

definition isDigit :: "char \<Rightarrow> bool" where
  "isDigit c = (48 \<le> code c \<and> code c \<le> 57)"

text \<open>The character after a backslash, outside a character class.\<close>

definition atom_escape :: "char \<Rightarrow> token completion" where
  "atom_escape c =
     (if c = CHR ''d'' then Returned (TAtom (Esc Digit))
      else if c = CHR ''D'' then Returned (TAtom (Esc NonDigit))
      else if c = CHR ''s'' then Returned (TAtom (Esc Space))
      else if c = CHR ''S'' then Returned (TAtom (Esc NonSpace))
      else if c = CHR ''w'' then Returned (TAtom (Esc WordChar))
      else if c = CHR ''W'' then Returned (TAtom (Esc NonWordChar))
      else if c = CHR ''b'' then Returned (TAssert (WordB True))
      else if c = CHR ''B'' then Returned (TAssert (WordB False))
      else if c = CHR ''f'' then Returned (TAtom (Chr (CHR 0x0C)))
      else if c = CHR ''n'' then Returned (TAtom (Chr (CHR 0x0A)))
      else if c = CHR ''r'' then Returned (TAtom (Chr (CHR 0x0D)))
      else if c = CHR ''t'' then Returned (TAtom (Chr (CHR 0x09)))
      else if c = CHR ''v'' then Returned (TAtom (Chr (CHR 0x0B)))
      else if isDigit c \<or> c \<in> {CHR ''c'', CHR ''x'', CHR ''u'', CHR ''k''} then Unmodelled
      else Returned (TAtom (Chr c)))"

text \<open>The character after a backslash, inside a character class.\<close>

definition class_escape_item :: "char \<Rightarrow> class_item completion" where
  "class_escape_item c =
     (if c = CHR ''d'' then Returned (CEsc Digit)
      else if c = CHR ''D'' then Returned (CEsc NonDigit)
      else if c = CHR ''s'' then Returned (CEsc Space)
      else if c = CHR ''S'' then Returned (CEsc NonSpace)
      else if c = CHR ''w'' then Returned (CEsc WordChar)
      else if c = CHR ''W'' then Returned (CEsc NonWordChar)
      else if c = CHR ''b'' then Returned (CChar (CHR 0x08))
      else if c = CHR ''f'' then Returned (CChar (CHR 0x0C))
      else if c = CHR ''n'' then Returned (CChar (CHR 0x0A))
      else if c = CHR ''r'' then Returned (CChar (CHR 0x0D))
      else if c = CHR ''t'' then Returned (CChar (CHR 0x09))
      else if c = CHR ''v'' then Returned (CChar (CHR 0x0B))
      else if isDigit c \<or> c \<in> {CHR ''c'', CHR ''x'', CHR ''u'', CHR ''k''} then Unmodelled
      else Returned (CChar c))"

text \<open>One class atom and the rest of the pattern after it.\<close>

fun class_atom :: "string \<Rightarrow> (class_item \<times> string) completion" where
  "class_atom [] = Thrown SyntaxError"
| "class_atom [c] = (if c = backslash then Thrown SyntaxError else Returned (CChar c, []))"
| "class_atom (c # d # cs) =
     (if c = backslash then bind (class_escape_item d) (\<lambda>a. Returned (a, cs))
      else Returned (CChar c, d # cs))"

text \<open>\<^verbatim>\<open>a-b\<close> inside a class: a range between two characters (a syntax error when out of
  order), otherwise the union of both sides and the hyphen.\<close>

fun class_range :: "class_item \<Rightarrow> class_item \<Rightarrow> class_item list completion" where
  "class_range (CChar x) (CChar y) =
     (if code x \<le> code y then Returned [CRange x y] else Thrown SyntaxError)"
| "class_range a b = Returned [a, CChar CHR ''-'', b]"

text \<open>A hyphen that stands between two class atoms: it is followed by something
  other than the closing bracket.\<close>

fun range_follows :: "string \<Rightarrow> bool" where
  "range_follows (h # d # ds) = (h = CHR ''-'' \<and> d \<noteq> CHR '']'')"
| "range_follows _ = False"

text \<open>One class atom, or one range when a hyphen and a further atom follow it.\<close>

definition class_step :: "string \<Rightarrow> (class_item list \<times> string) completion" where
  "class_step s =
     bind (class_atom s) (\<lambda>(a, rest).
       if range_follows rest then
         bind (class_atom (tl rest)) (\<lambda>(b, rest').
           bind (class_range a b) (\<lambda>ab. Returned (ab, rest')))
       else Returned ([a], rest))"

lemma class_atom_shorter:
  "class_atom s = Returned (a, rest) \<Longrightarrow> length rest < length s"
  by (induction s rule: class_atom.induct) (auto simp: bind_eq_Returned split: if_splits)

lemma class_step_shorter:
  assumes "class_step s = Returned (items, rest)"
  shows "length rest < length s"
proof -
  from assms obtain a r where a: "class_atom s = Returned (a, r)"
    and r: "(if range_follows r then
               bind (class_atom (tl r)) (\<lambda>(b, rest').
                 bind (class_range a b) (\<lambda>ab. Returned (ab, rest')))
             else Returned ([a], r)) = Returned (items, rest)"
    unfolding class_step_def by (auto simp: bind_eq_Returned)
  have l: "length r < length s" using a by (rule class_atom_shorter)
  show ?thesis
  proof (cases "range_follows r")
    case False
    with r l show ?thesis by simp
  next
    case True
    with r obtain b where "class_atom (tl r) = Returned (b, rest)"
      by (auto simp: bind_eq_Returned)
    then have "length rest < length (tl r)" by (rule class_atom_shorter)
    with l show ?thesis by simp
  qed
qed

text \<open>The items of a class up to its closing bracket, and the rest of the pattern.\<close>

function class_items :: "string \<Rightarrow> (class_item list \<times> string) completion" where
  "class_items [] = Thrown SyntaxError"
| "class_items (c # cs) =
     (if c = CHR '']'' then Returned ([], cs)
      else bind (class_step (c # cs)) (\<lambda>(items, rest).
             bind (class_items rest) (\<lambda>(more, after). Returned (items @ more, after))))"
  by pat_completeness auto
termination
  by (relation "measure length") (auto dest: class_step_shorter)

text \<open>\<^verbatim>\<open>[\<close> opens a class, negated when a caret follows at once.\<close>

definition class_open :: "string \<Rightarrow> (regex \<times> string) completion" where
  "class_open cs =
     (if take 1 cs = ''^'' then
        bind (class_items (drop 1 cs)) (\<lambda>(items, rest). Returned (Cls True items, rest))
      else bind (class_items cs) (\<lambda>(items, rest). Returned (Cls False items, rest)))"

lemma class_items_shorter:
  "class_items s = Returned (items, rest) \<Longrightarrow> length rest < length s"
proof (induction s arbitrary: items rest rule: class_items.induct)
  case 1
  then show ?case by simp
next
  case (2 c cs)
  show ?case
  proof (cases "c = CHR '']''")
    case True
    with 2(2) show ?thesis by simp
  next
    case False
    with 2(2) obtain its r more where s: "class_step (c # cs) = Returned (its, r)"
      and m: "class_items r = Returned (more, rest)"
      by (auto simp: bind_eq_Returned)
    from 2(1)[OF False s refl m] have "length rest < length r" .
    moreover from s have "length r < length (c # cs)" by (rule class_step_shorter)
    ultimately show ?thesis by simp
  qed
qed

lemma class_open_shorter:
  "class_open cs = Returned (r, rest) \<Longrightarrow> length rest \<le> length cs"
  unfolding class_open_def
  by (auto simp: bind_eq_Returned split: if_splits dest!: class_items_shorter)

text \<open>The pattern as a list of tokens.\<close>

definition cons_token :: "token \<Rightarrow> token list completion \<Rightarrow> token list completion" where
  "cons_token t m = bind m (\<lambda>ts. Returned (t # ts))"

lemma cons_token_cong [fundef_cong]:
  "t = t' \<Longrightarrow> m = m' \<Longrightarrow> cons_token t m = cons_token t' m'"
  by simp

function lex :: "string \<Rightarrow> token list completion" where
  "lex [] = Returned []"
| "lex (c # cs) =
     (if c = backslash then
        (case cs of
           [] \<Rightarrow> Thrown SyntaxError
         | d # ds \<Rightarrow> bind (atom_escape d) (\<lambda>t. cons_token t (lex ds)))
      else if c = CHR ''['' then
        bind (class_open cs) (\<lambda>(r, rest). cons_token (TAtom r) (lex rest))
      else if c = CHR ''('' then
        (if take 2 cs = ''?:'' then cons_token TOpen (lex (drop 2 cs))
         else if take 1 cs = ''?'' then Unmodelled
         else cons_token TOpen (lex cs))
      else if c = CHR '')'' then cons_token TClose (lex cs)
      else if c = CHR ''|'' then cons_token TBar (lex cs)
      else if c = CHR ''*'' then cons_token (TQuant QStar) (lex cs)
      else if c = CHR ''+'' then cons_token (TQuant QPlus) (lex cs)
      else if c = CHR ''?'' then cons_token (TQuant QOpt) (lex cs)
      else if c = CHR ''^'' then cons_token (TAssert Bol) (lex cs)
      else if c = CHR ''$'' then cons_token (TAssert Eol) (lex cs)
      else if c = CHR ''.'' then cons_token (TAtom Dot) (lex cs)
      else if c = CHR ''{'' then Unmodelled
      else cons_token (TAtom (Chr c)) (lex cs))"
  by pat_completeness auto
termination
  by (relation "measure length") (auto dest: class_open_shorter)

text \<open>
  The tokens are assembled with a stack of open groups. Each frame holds the finished
  alternatives of its group, the terms of the alternative being read (latest first), and
  whether the latest term may still take a quantifier: a quantifier needs an atom before
  it, a quantified atom may take one more \<^verbatim>\<open>?\<close> (lazy), and an assertion takes none.
\<close>

datatype term_status = NoTerm | Quantifiable | Quantified | Closed

record frame =
  alts :: "regex list"
  terms :: "regex list"
  latest :: term_status

definition empty_frame :: frame where
  "empty_frame = \<lparr>alts = [], terms = [], latest = NoTerm\<rparr>"

fun apply_quantifier :: "quantifier \<Rightarrow> regex \<Rightarrow> regex" where
  "apply_quantifier QStar r = Star r"
| "apply_quantifier QPlus r = Plus r"
| "apply_quantifier QOpt r = Opt r"

definition seq_of :: "regex list \<Rightarrow> regex" where
  "seq_of rs = foldr Seq rs Empty"

fun alt_of :: "regex list \<Rightarrow> regex" where
  "alt_of [] = Empty"
| "alt_of [r] = r"
| "alt_of (r # rs) = Alt r (alt_of rs)"

definition close_frame :: "frame \<Rightarrow> regex" where
  "close_frame f = alt_of (alts f @ [seq_of (rev (terms f))])"

fun parse :: "token list \<Rightarrow> frame \<Rightarrow> frame list \<Rightarrow> regex completion" where
  "parse [] f stack = (if stack = [] then Returned (close_frame f) else Thrown SyntaxError)"
| "parse (TAtom r # ts) f stack =
     parse ts (f\<lparr>terms := r # terms f, latest := Quantifiable\<rparr>) stack"
| "parse (TAssert r # ts) f stack =
     parse ts (f\<lparr>terms := r # terms f, latest := Closed\<rparr>) stack"
| "parse (TQuant q # ts) f stack =
     (case latest f of
        Quantifiable \<Rightarrow>
          (case terms f of
             [] \<Rightarrow> Thrown SyntaxError
           | r # rs \<Rightarrow>
               parse ts (f\<lparr>terms := apply_quantifier q r # rs, latest := Quantified\<rparr>) stack)
      | Quantified \<Rightarrow>
          if q = QOpt then parse ts (f\<lparr>latest := Closed\<rparr>) stack else Thrown SyntaxError
      | _ \<Rightarrow> Thrown SyntaxError)"
| "parse (TOpen # ts) f stack = parse ts empty_frame (f # stack)"
| "parse (TClose # ts) f stack =
     (case stack of
        [] \<Rightarrow> Thrown SyntaxError
      | g # rest \<Rightarrow>
          parse ts (g\<lparr>terms := Group (close_frame f) # terms g, latest := Quantifiable\<rparr>) rest)"
| "parse (TBar # ts) f stack =
     parse ts (f\<lparr>alts := alts f @ [seq_of (rev (terms f))], terms := [], latest := NoTerm\<rparr>)
       stack"

text \<open>\<^verbatim>\<open>new RegExp(pattern, 'i')\<close>: the compiled pattern, or the \<^verbatim>\<open>SyntaxError\<close> it throws.\<close>

definition RegExp :: "string \<Rightarrow> regex completion" where
  "RegExp pattern = bind (lex pattern) (\<lambda>ts. parse ts empty_frame [])"

subsection \<open>Matching, ignoring case\<close>

text \<open>Canonicalize of ECMAScript for the \<^verbatim>\<open>i\<close> flag without \<^verbatim>\<open>u\<close>: the upper-case
  partner when it is a single code unit. The partners of U+00B5 and U+00FF lie beyond
  Latin-1 and are partners of no other Latin-1 character, so both stand for themselves.\<close>

definition canonicalize :: "char \<Rightarrow> char" where
  "canonicalize c =
     (if (97 \<le> code c \<and> code c \<le> 122) \<or> (224 \<le> code c \<and> code c \<le> 254 \<and> code c \<noteq> 247)
      then char_of (code c - 32) else c)"

definition isWordChar :: "char \<Rightarrow> bool" where
  "isWordChar c =
     ((97 \<le> code c \<and> code c \<le> 122) \<or> (65 \<le> code c \<and> code c \<le> 90) \<or> isDigit c \<or> c = CHR ''_'')"

definition isLineTerminator :: "char \<Rightarrow> bool" where
  "isLineTerminator c = (code c = 10 \<or> code c = 13)"

fun escape_matches :: "class_escape \<Rightarrow> char \<Rightarrow> bool" where
  "escape_matches Digit d = isDigit d"
| "escape_matches NonDigit d = (\<not> isDigit d)"
| "escape_matches Space d = isWhiteSpace d"
| "escape_matches NonSpace d = (\<not> isWhiteSpace d)"
| "escape_matches WordChar d = isWordChar d"
| "escape_matches NonWordChar d = (\<not> isWordChar d)"

text \<open>A class item matches \<open>d\<close> when one of its characters has the canonical form of
  \<open>d\<close>; the Latin-1 characters with that form are \<open>d\<close> and its two case partners.\<close>

definition in_range :: "char \<Rightarrow> char \<Rightarrow> char \<Rightarrow> bool" where
  "in_range lo hi a = (code lo \<le> code a \<and> code a \<le> code hi)"

fun item_matches :: "class_item \<Rightarrow> char \<Rightarrow> bool" where
  "item_matches (CChar c) d = (canonicalize c = canonicalize d)"
| "item_matches (CRange lo hi) d =
     (in_range lo hi d \<or> in_range lo hi (canonicalize d) \<or> in_range lo hi (toLowerCase_char d))"
| "item_matches (CEsc e) d = escape_matches e d"

text \<open>A position in the input: the character before it, if any, and what is left.\<close>

type_synonym mstate = "char option \<times> string"

fun consume :: "(char \<Rightarrow> bool) \<Rightarrow> mstate \<Rightarrow> mstate list" where
  "consume P (p, []) = []"
| "consume P (p, c # cs) = (if P c then [(Some c, cs)] else [])"

definition at_word_boundary :: "mstate \<Rightarrow> bool" where
  "at_word_boundary st =
     ((case fst st of None \<Rightarrow> False | Some c \<Rightarrow> isWordChar c)
      \<noteq> (case snd st of [] \<Rightarrow> False | c # _ \<Rightarrow> isWordChar c))"

text \<open>Repetition: each further round must consume input (ECMAScript rejects an empty
  iteration), so \<open>n\<close> rounds reach every position when \<open>n\<close> is the length left.\<close>

fun iterate_star :: "(mstate \<Rightarrow> mstate list) \<Rightarrow> nat \<Rightarrow> mstate list \<Rightarrow> mstate list" where
  "iterate_star f 0 sts = sts"
| "iterate_star f (Suc n) sts =
     sts @ iterate_star f n
       (concat (map (\<lambda>st. filter (\<lambda>st'. length (snd st') < length (snd st)) (f st)) sts))"

text \<open>All positions at which a match of the pattern that starts at \<open>st\<close> can end.\<close>

primrec residuals :: "regex \<Rightarrow> mstate \<Rightarrow> mstate list" where
  "residuals Empty st = [st]"
| "residuals (Chr c) st = consume (\<lambda>d. canonicalize d = canonicalize c) st"
| "residuals Dot st = consume (\<lambda>d. \<not> isLineTerminator d) st"
| "residuals (Cls neg items) st = consume (\<lambda>d. list_ex (\<lambda>i. item_matches i d) items \<noteq> neg) st"
| "residuals (Esc e) st = consume (escape_matches e) st"
| "residuals Bol st = (if fst st = None then [st] else [])"
| "residuals Eol st = (if snd st = [] then [st] else [])"
| "residuals (WordB b) st = (if at_word_boundary st = b then [st] else [])"
| "residuals (Seq r1 r2) st = concat (map (residuals r2) (residuals r1 st))"
| "residuals (Alt r1 r2) st = residuals r1 st @ residuals r2 st"
| "residuals (Star r) st = iterate_star (residuals r) (length (snd st)) [st]"
| "residuals (Plus r) st = iterate_star (residuals r) (length (snd st)) (residuals r st)"
| "residuals (Opt r) st = st # residuals r st"
| "residuals (Group r) st = residuals r st"

text \<open>Every position of the input at which a match may start.\<close>

fun positions :: "char option \<Rightarrow> string \<Rightarrow> mstate list" where
  "positions p [] = [(p, [])]"
| "positions p (c # cs) = (p, c # cs) # positions (Some c) cs"

text \<open>\<^verbatim>\<open>regex.test(s)\<close> for a pattern without the \<^verbatim>\<open>g\<close> flag: some substring matches.\<close>

definition regex_test :: "regex \<Rightarrow> string \<Rightarrow> bool" where
  "regex_test r s = list_ex (\<lambda>st. residuals r st \<noteq> []) (positions None s)"


section \<open>Brand mention detection\<close>

text \<open>\<^verbatim>\<open>{ mentioned, position }\<close>, the value \<^verbatim>\<open>detectBrandMention\<close> returns;
  \<open>None\<close> is \<^verbatim>\<open>null\<close>.\<close>

record detection =
  mentioned :: bool
  position :: "nat option"

definition not_mentioned :: detection where
  "not_mentioned = \<lparr>mentioned = False, position = None\<rparr>"

definition mentioned_at :: "nat \<Rightarrow> detection" where
  "mentioned_at i = \<lparr>mentioned = True, position = Some (i + 1)\<rparr>"

text \<open>The first loop: the first segment whose lower-cased text includes the brand.
  \<open>i\<close> is the index of the head of the list.\<close>

fun exact_pass :: "nat \<Rightarrow> string list \<Rightarrow> string \<Rightarrow> detection option" where
  "exact_pass i [] brandLower = None"
| "exact_pass i (segment # segments) brandLower =
     (if includes_str (toLowerCase segment) brandLower then Some (mentioned_at i)
      else exact_pass (i + 1) segments brandLower)"

text \<open>The second loop: the first segment the pattern matches.\<close>

fun loose_pass :: "nat \<Rightarrow> string list \<Rightarrow> regex \<Rightarrow> detection option" where
  "loose_pass i [] regex = None"
| "loose_pass i (segment # segments) regex =
     (if regex_test regex segment then Some (mentioned_at i)
      else loose_pass (i + 1) segments regex)"

text \<open>The innermost loop of the third pass: \<open>charCount\<close> holds the lengths of the
  segments before \<open>j\<close>; the loop returns at the first segment with which the count reaches
  \<open>target\<close>, and falls through when none does.\<close>

fun locate_segment :: "nat \<Rightarrow> int \<Rightarrow> string list \<Rightarrow> int \<Rightarrow> detection option" where
  "locate_segment j charCount [] target = None"
| "locate_segment j charCount (segment # segments) target =
     (if charCount + int (length segment) \<ge> target then Some (mentioned_at j)
      else locate_segment (j + 1) (charCount + int (length segment)) segments target)"

text \<open>The third loop, over the white-space separated words of the lower-cased text.\<close>

fun partial_pass :: "string list \<Rightarrow> string \<Rightarrow> string list \<Rightarrow> string \<Rightarrow> detection option" where
  "partial_pass [] brandLower segments textLower = None"
| "partial_pass (w # words) brandLower segments textLower =
     (let word = strip_non_alnum w;
          brand = strip_non_alnum brandLower
      in if length word > 3 \<and> length brand > 3
            \<and> (includes_str word brand \<or> includes_str brand word)
         then (case locate_segment 0 0 segments (indexOf textLower word) of
                 Some r \<Rightarrow> Some r
               | None \<Rightarrow> partial_pass words brandLower segments textLower)
         else partial_pass words brandLower segments textLower)"

text \<open>The separator put between the brand words: \<^verbatim>\<open>[\s\-\_]*\<close>.\<close>

definition loose_separator :: string where
  "loose_separator =
     [CHR ''['', backslash, CHR ''s'', backslash, CHR ''-'', backslash, CHR ''_'', CHR '']'',
      CHR ''*'']"

definition brandPattern :: "string \<Rightarrow> string" where
  "brandPattern brandLower = join loose_separator (split_whitespace brandLower)"

definition detectBrandMention :: "string \<Rightarrow> string \<Rightarrow> detection completion" where
  "detectBrandMention text brandName =
     (if text = [] \<or> brandName = [] then Returned not_mentioned
      else
        let textLower = toLowerCase text;
            brandLower = trim (toLowerCase brandName);
            segments = split_segments text
        in case exact_pass 0 segments brandLower of
             Some r \<Rightarrow> Returned r
           | None \<Rightarrow>
               bind (RegExp (brandPattern brandLower)) (\<lambda>regex.
                 case loose_pass 0 segments regex of
                   Some r \<Rightarrow> Returned r
                 | None \<Rightarrow>
                     (case partial_pass (split_whitespace textLower) brandLower segments textLower of
                        Some r \<Rightarrow> Returned r
                      | None \<Rightarrow> Returned not_mentioned)))"


section \<open>Generation with fallback\<close>

text \<open>The model names tried in order, and the default one.\<close>

definition MODEL_OPTIONS :: "string list" where
  "MODEL_OPTIONS = [''gemini-2.5-flash'', ''gemini-2.5-pro'', ''gemini-2.0-flash-exp'']"

definition MODEL_NAME :: string where
  "MODEL_NAME = hd MODEL_OPTIONS"

definition getCannedResponse :: string where
  "getCannedResponse =
     ''Here are some popular options in the market:'' @ [newline] @
     ''1. Leading industry solutions'' @ [newline] @
     ''2. Well-established platforms'' @ [newline] @
     ''3. Innovative tools and services'' @ [newline] @
     ''4. Cost-effective alternatives'' @ [newline] @
     ''5. Enterprise-grade solutions'' @ [newline] @
     [newline] @
     ''These represent various options available for your needs.''"

text \<open>
  The generative API is outside the program. What one call for one model gives back is
  a value of \<open>attempt\<close>: an exception anywhere between \<^verbatim>\<open>getGenerativeModel\<close> and
  \<^verbatim>\<open>await result.response\<close>, or a response object. Of a response the handler reads the
  member \<^verbatim>\<open>text\<close> (absent or not a function, a function that throws, or a function that
  returns a string) and \<^verbatim>\<open>candidates[0].content.parts\<close>, each part with an optional
  \<^verbatim>\<open>text\<close>. \<open>None\<close> stands for an absent member.
\<close>

datatype text_member = NotAFunction | TextThrows | TextReturns string

type_synonym part = "string option"

type_synonym candidate = "part list option"

record response =
  text_member :: text_member
  candidates :: "candidate list option"

datatype attempt = CallFails | Responds response

text \<open>JavaScript truthiness of the variable \<^verbatim>\<open>geminiResponse\<close>, which is
  \<^verbatim>\<open>undefined\<close> (\<open>None\<close>) or a string.\<close>

definition falsy :: "string option \<Rightarrow> bool" where
  "falsy g = (g = None \<or> g = Some [])"

text \<open>\<^verbatim>\<open>parts.map(part => part.text || '').join('')\<close>.\<close>

definition parts_text :: "part list \<Rightarrow> string" where
  "parts_text ps = concat (map (\<lambda>p. case p of None \<Rightarrow> [] | Some t \<Rightarrow> t) ps)"

text \<open>The two extraction steps of one iteration, from the value \<open>g\<close> that
  \<^verbatim>\<open>geminiResponse\<close> holds when the iteration starts. The variable is declared before
  the loop and is not reset between iterations.\<close>

definition after_text_call :: "response \<Rightarrow> string option \<Rightarrow> string option" where
  "after_text_call r g = (case text_member r of TextReturns t \<Rightarrow> Some t | _ \<Rightarrow> g)"

definition after_candidates :: "response \<Rightarrow> string option \<Rightarrow> string option" where
  "after_candidates r g =
     (if falsy g then
        (case candidates r of
           Some (Some ps # _) \<Rightarrow> if ps \<noteq> [] then Some (parts_text ps) else g
         | _ \<Rightarrow> g)
      else g)"

definition extract_text :: "response \<Rightarrow> string option \<Rightarrow> string option" where
  "extract_text r g = after_candidates r (after_text_call r g)"

definition blank :: "string \<Rightarrow> bool" where
  "blank t = (length (trim t) = 0)"

text \<open>The loop over the model names. The result is the text and the name of the first
  model whose iteration reaches \<^verbatim>\<open>break\<close>, or \<open>None\<close> when every iteration ends in the
  \<^verbatim>\<open>catch\<close>.\<close>

fun try_models :: "(string \<Rightarrow> attempt) \<Rightarrow> string list \<Rightarrow> string option \<Rightarrow> (string \<times> string) option" where
  "try_models gen [] g = None"
| "try_models gen (modelName # rest) g =
     (case gen modelName of
        CallFails \<Rightarrow> try_models gen rest g
      | Responds r \<Rightarrow>
          (case extract_text r g of
             None \<Rightarrow> try_models gen rest None
           | Some t \<Rightarrow>
               if t = [] \<or> blank t then try_models gen rest (Some t)
               else Some (t, modelName)))"

text \<open>The three variables after the inner \<^verbatim>\<open>try\<close>/\<^verbatim>\<open>catch\<close>. \<^verbatim>\<open>modelUsed\<close> starts as
  \<^verbatim>\<open>MODEL_NAME\<close> and is assigned only on success; \<open>None\<close> would be \<^verbatim>\<open>null\<close>.\<close>

record outcome =
  geminiResponse :: string
  modelUsed :: "string option"
  usedCannedResponse :: bool

definition generate :: "(string \<Rightarrow> attempt) \<Rightarrow> outcome" where
  "generate gen =
     (case try_models gen MODEL_OPTIONS None of
        Some (t, modelName) \<Rightarrow>
          \<lparr>geminiResponse = t, modelUsed = Some modelName, usedCannedResponse = False\<rparr>
      | None \<Rightarrow>
          \<lparr>geminiResponse = getCannedResponse, modelUsed = Some MODEL_NAME,
           usedCannedResponse = True\<rparr>)"


section \<open>The request handler\<close>

text \<open>The \<^verbatim>\<open>data\<close> object of a success response; \<^verbatim>\<open>errorOccurred\<close> is present only in
  the response of the outer \<^verbatim>\<open>catch\<close>.\<close>

record check_result =
  data_prompt :: string
  data_brandName :: string
  data_mentioned :: string
  data_position :: "nat option"
  data_geminiResponse :: string
  data_usedCannedResponse :: bool
  data_errorOccurred :: "bool option"

text \<open>What the handler of \<^verbatim>\<open>POST /api/check-brand\<close> sends: status 400 with an error
  message, or status 200 with \<^verbatim>\<open>success: true\<close> and the data. When an exception leaves
  the handler (\<open>Thrown\<close>), nothing is sent.\<close>

datatype reply = BadRequest string | Success check_result

definition shape :: "string \<Rightarrow> string \<Rightarrow> detection \<Rightarrow> string \<Rightarrow> bool \<Rightarrow> bool option \<Rightarrow> check_result" where
  "shape prompt brandName detection text canned err =
     \<lparr>data_prompt = prompt,
      data_brandName = brandName,
      data_mentioned = (if mentioned detection then ''Yes'' else ''No''),
      data_position = (if mentioned detection then position detection else None),
      data_geminiResponse = text,
      data_usedCannedResponse = canned,
      data_errorOccurred = err\<rparr>"

definition check_brand :: "(string \<Rightarrow> attempt) \<Rightarrow> string \<Rightarrow> string \<Rightarrow> reply completion" where
  "check_brand gen prompt brandName =
     (if prompt = [] \<or> brandName = [] then
        Returned (BadRequest ''Both prompt and brandName are required'')
      else if length (trim prompt) = 0 \<or> length (trim brandName) = 0 then
        Returned (BadRequest ''Prompt and brand name cannot be empty'')
      else
        let out = generate gen in
        case detectBrandMention (geminiResponse out) brandName of
          Returned detection \<Rightarrow>
            Returned (Success (shape prompt brandName detection (geminiResponse out)
                                 (usedCannedResponse out) None))
        | Unmodelled \<Rightarrow> Unmodelled
        | Thrown error \<Rightarrow>
            (case detectBrandMention getCannedResponse brandName of
               Returned detection \<Rightarrow>
                 Returned (Success (shape prompt brandName detection getCannedResponse
                                      True (Some True)))
             | Unmodelled \<Rightarrow> Unmodelled
             | Thrown error' \<Rightarrow> Thrown error'))"


section \<open>Behaviours of the generative API used below\<close>

text \<open>An attempt from which no text can come: the call fails, or every text in the
  response (the one \<^verbatim>\<open>text()\<close> returns, the one in the parts) is empty or white space.\<close>

definition yields_no_text :: "attempt \<Rightarrow> bool" where
  "yields_no_text a =
     (case a of
        CallFails \<Rightarrow> True
      | Responds r \<Rightarrow>
          (case text_member r of TextReturns t \<Rightarrow> blank t | _ \<Rightarrow> True) \<and>
          (case candidates r of Some (Some ps # _) \<Rightarrow> blank (parts_text ps) | _ \<Rightarrow> True))"

text \<open>Every model answers with the same plain text.\<close>

definition answers :: "string \<Rightarrow> string \<Rightarrow> attempt" where
  "answers t modelName = Responds \<lparr>text_member = TextReturns t, candidates = None\<rparr>"

text \<open>The first model answers with two spaces; the second stopped early, so that its
  \<^verbatim>\<open>text()\<close> throws while its first candidate carries the part \<^verbatim>\<open>Hello\<close>; the third
  call fails.\<close>

definition partial_second :: response where
  "partial_second = \<lparr>text_member = TextThrows, candidates = Some [Some [Some ''Hello'']]\<rparr>"

definition blank_then_partial :: "string \<Rightarrow> attempt" where
  "blank_then_partial modelName =
     (if modelName = ''gemini-2.5-flash'' then
        Responds \<lparr>text_member = TextReturns ''  '', candidates = None\<rparr>
      else if modelName = ''gemini-2.5-pro'' then Responds partial_second
      else CallFails)"

text \<open>A numbered list, as the models like to write them.\<close>

definition numbered_list :: string where
  "numbered_list = ''1. Zoho'' @ [newline] @ ''2. Odoo'' @ [newline] @ ''3. Acme''"


text \<open>The brand words for which the pattern is free of pattern syntax: the characters
  that the reading of a pattern treats specially do not occur in them.\<close>

definition isSyntaxChar :: "char \<Rightarrow> bool" where
  "isSyntaxChar c = (c = backslash \<or> c \<in> set ''^$.*+?()[{|'')"

definition plain_word :: "string \<Rightarrow> bool" where
  "plain_word w = (\<forall>c\<in>set w. \<not> isSyntaxChar c)"

definition atoms :: "string \<Rightarrow> token list" where
  "atoms w = map (\<lambda>c. TAtom (Chr c)) w"

definition separator_class :: regex where
  "separator_class = Cls False [CEsc Space, CChar CHR ''-'', CChar CHR ''_'']"

text \<open>The tokens and the terms of the pattern built from plain words.\<close>

fun pattern_tokens :: "string list \<Rightarrow> token list" where
  "pattern_tokens [] = []"
| "pattern_tokens [w] = atoms w"
| "pattern_tokens (w # ws) = atoms w @ TAtom separator_class # TQuant QStar # pattern_tokens ws"

fun pattern_terms :: "string list \<Rightarrow> regex list" where
  "pattern_terms [] = []"
| "pattern_terms [w] = map Chr w"
| "pattern_terms (w # ws) = map Chr w @ Star separator_class # pattern_terms ws"


text \<open>A loose occurrence of the brand words at the head of a string: each word up to
  case, and any run of white space, hyphens and underscores between two of them.\<close>

definition same_letters :: "string \<Rightarrow> string \<Rightarrow> bool" where
  "same_letters u w = (map canonicalize u = map canonicalize w)"

definition isSeparator :: "char \<Rightarrow> bool" where
  "isSeparator c = (isWhiteSpace c \<or> c = CHR ''-'' \<or> c = CHR ''_'')"

fun loose_at :: "string list \<Rightarrow> string \<Rightarrow> bool" where
  "loose_at [] s = True"
| "loose_at [w] s = same_letters (take (length w) s) w"
| "loose_at (w # ws) s =
     (same_letters (take (length w) s) w \<and>
      list_ex (\<lambda>k. loose_at ws (drop k (drop (length w) s)))
        [0..<Suc (length (takeWhile isSeparator (drop (length w) s)))])"

definition loosely_contains :: "string list \<Rightarrow> string \<Rightarrow> bool" where
  "loosely_contains ws s = list_ex (\<lambda>k. loose_at ws (drop k s)) [0..<Suc (length s)]"


section \<open>Properties of the detector\<close>

lemma includes_str_Nil [simp]: "includes_str s []"
  by (cases s) simp_all

text \<open>\<open>includes_str\<close> is the substring relation.\<close>

lemma includes_str_sublist: "includes_str s sub \<longleftrightarrow> sublist sub s"
  by (induction s) (auto simp: sublist_Cons_right)

lemma code_toLowerCase_char:
  "code (toLowerCase_char c) =
     (if (65 \<le> code c \<and> code c \<le> 90) \<or> (192 \<le> code c \<and> code c \<le> 222 \<and> code c \<noteq> 215)
      then code c + 32 else code c)"
  by (simp add: toLowerCase_char_def code_def)

lemma isWhiteSpace_toLowerCase_char [simp]:
  "isWhiteSpace (toLowerCase_char c) = isWhiteSpace c"
  by (auto simp: isWhiteSpace_def code_toLowerCase_char)

lemma trim_all_whitespace:
  assumes "\<forall>c\<in>set s. isWhiteSpace c"
  shows "trim (toLowerCase s) = []"
proof -
  have d: "dropWhile isWhiteSpace (toLowerCase s) = []"
    using assms by (simp add: toLowerCase_def dropWhile_eq_Nil_conv)
  show ?thesis unfolding trim_def d by simp
qed

lemma split_segments_not_Nil [simp]: "split_segments s \<noteq> []"
  by (induction s) (auto split: list.splits)

lemma exact_pass_mentioned:
  "exact_pass i segments b = Some r \<Longrightarrow> \<exists>k. r = mentioned_at k"
  by (induction i segments b rule: exact_pass.induct) (auto split: if_splits)

lemma loose_pass_mentioned:
  "loose_pass i segments re = Some r \<Longrightarrow> \<exists>k. r = mentioned_at k"
  by (induction i segments re rule: loose_pass.induct) (auto split: if_splits)

lemma locate_segment_mentioned:
  "locate_segment j n segments target = Some r \<Longrightarrow> \<exists>k. r = mentioned_at k"
  by (induction j n segments target rule: locate_segment.induct) (auto split: if_splits)

lemma partial_pass_mentioned:
  "partial_pass ws b segments t = Some r \<Longrightarrow> \<exists>k. r = mentioned_at k"
  by (induction ws b segments t rule: partial_pass.induct)
     (auto simp: Let_def split: if_splits option.splits dest: locate_segment_mentioned)

lemma detect_result_shape:
  assumes "detectBrandMention text brandName = Returned r"
  shows "r = not_mentioned \<or> (\<exists>k. r = mentioned_at k)"
  using assms unfolding detectBrandMention_def
  by (auto simp: Let_def bind_eq_Returned split: if_splits option.splits
           dest: exact_pass_mentioned loose_pass_mentioned partial_pass_mentioned)

lemma exact_pass_first:
  "i < length segments \<Longrightarrow> includes_str (toLowerCase (segments ! i)) b \<Longrightarrow>
   (\<forall>j<i. \<not> includes_str (toLowerCase (segments ! j)) b) \<Longrightarrow>
   exact_pass k segments b = Some (mentioned_at (k + i))"
proof (induction segments arbitrary: i k)
  case Nil
  then show ?case by simp
next
  case (Cons s segments)
  show ?case
  proof (cases i)
    case 0
    with Cons.prems show ?thesis by simp
  next
    case (Suc i')
    with Cons.prems have "\<not> includes_str (toLowerCase s) b" by auto
    moreover have "exact_pass (k + 1) segments b = Some (mentioned_at (k + 1 + i'))"
      using Cons.prems Suc by (intro Cons.IH) auto
    ultimately show ?thesis using Suc by simp
  qed
qed

text \<open>The call throws exactly when the first pass finds nothing and the pattern does
  not compile.\<close>

lemma bind_eq_Thrown:
  "bind m f = Thrown e \<longleftrightarrow> m = Thrown e \<or> (\<exists>x. m = Returned x \<and> f x = Thrown e)"
  by (cases m) auto

lemma detect_throws_iff:
  "detectBrandMention text brandName = Thrown e \<longleftrightarrow>
     text \<noteq> [] \<and> brandName \<noteq> [] \<and>
     exact_pass 0 (split_segments text) (trim (toLowerCase brandName)) = None \<and>
     RegExp (brandPattern (trim (toLowerCase brandName))) = Thrown e"
  by (auto simp: detectBrandMention_def Let_def bind_eq_Thrown split: option.splits)

text \<open>The innermost loop of the third pass falls through exactly when the segment
  lengths together stay below the index looked for.\<close>

lemma locate_segment_None_iff:
  "segments \<noteq> [] \<Longrightarrow>
   locate_segment j n segments target = None \<longleftrightarrow>
     n + sum_list (map (\<lambda>s. int (length s)) segments) < target"
proof (induction segments arbitrary: j n)
  case Nil
  then show ?case by simp
next
  case (Cons s segments)
  show ?case
  proof (cases "segments = []")
    case True
    then show ?thesis by auto
  next
    case False
    have "0 \<le> sum_list (map (\<lambda>s. int (length s)) segments)"
      by (rule sum_list_nonneg) auto
    with Cons.IH[OF False] show ?thesis by (auto simp: algebra_simps)
  qed
qed

text \<open>For brand words free of pattern syntax the pattern compiles, to the words in
  order with \<^verbatim>\<open>[\s\-\_]*\<close> between them, and the call returns.\<close>

lemma cons_token_bind:
  "cons_token t (bind m (\<lambda>ts. Returned (f ts))) = bind m (\<lambda>ts. Returned (t # f ts))"
  by (cases m) (simp_all add: cons_token_def)

lemma lex_plain_word:
  "plain_word w \<Longrightarrow> lex (w @ rest) = bind (lex rest) (\<lambda>ts. Returned (atoms w @ ts))"
proof (induction w)
  case Nil
  show ?case by (cases "lex rest") (simp_all add: atoms_def)
next
  case (Cons c w)
  then have c: "\<not> isSyntaxChar c" and w: "plain_word w" by (simp_all add: plain_word_def)
  from c have "lex (c # w @ rest) = cons_token (TAtom (Chr c)) (lex (w @ rest))"
    by (simp add: isSyntaxChar_def)
  with Cons.IH[OF w] show ?case by (simp add: cons_token_bind atoms_def)
qed

lemma lex_separator:
  "lex (loose_separator @ rest) =
     bind (lex rest) (\<lambda>ts. Returned (TAtom separator_class # TQuant QStar # ts))"
  by (cases "lex rest")
     (simp_all add: loose_separator_def backslash_def class_open_def class_step_def
        class_escape_item_def separator_class_def cons_token_def isDigit_def code_def)

lemma lex_pattern:
  "\<forall>w\<in>set ws. plain_word w \<Longrightarrow> lex (join loose_separator ws) = Returned (pattern_tokens ws)"
proof (induction ws rule: pattern_tokens.induct)
  case 1
  show ?case by simp
next
  case (2 w)
  then show ?case using lex_plain_word[of w "[]"] by simp
next
  case (3 w v ws)
  then show ?case
    using lex_plain_word[of w "loose_separator @ join loose_separator (v # ws)"]
    by (simp add: lex_separator)
qed

lemma parse_atoms:
  "\<exists>l. parse (atoms w @ ts) f stack =
         parse ts (f\<lparr>terms := rev (map Chr w) @ terms f, latest := l\<rparr>) stack"
proof (induction w arbitrary: f)
  case Nil
  have "f = f\<lparr>terms := terms f, latest := latest f\<rparr>" by simp
  then show ?case unfolding atoms_def by (metis append_Nil list.simps(8) rev.simps(1))
next
  case (Cons c w)
  from Cons[of "f\<lparr>terms := Chr c # terms f, latest := Quantifiable\<rparr>"]
  show ?case by (simp add: atoms_def)
qed

lemma parse_pattern:
  "parse (pattern_tokens ws) f [] =
     Returned (close_frame (f\<lparr>terms := rev (pattern_terms ws) @ terms f\<rparr>))"
proof (induction ws arbitrary: f rule: pattern_tokens.induct)
  case 1
  show ?case by simp
next
  case (2 w)
  from parse_atoms[of w "[]" f "[]"] show ?case by (auto simp: close_frame_def)
next
  case (3 w v ws)
  obtain l where
    "parse (atoms w @ TAtom separator_class # TQuant QStar # pattern_tokens (v # ws)) f [] =
       parse (TAtom separator_class # TQuant QStar # pattern_tokens (v # ws))
         (f\<lparr>terms := rev (map Chr w) @ terms f, latest := l\<rparr>) []"
    using parse_atoms by blast
  then show ?case using 3 by (simp add: close_frame_def)
qed

lemma RegExp_plain:
  assumes "\<forall>w\<in>set (split_whitespace b). plain_word w"
  shows "RegExp (brandPattern b) = Returned (seq_of (pattern_terms (split_whitespace b)))"
  by (simp add: RegExp_def brandPattern_def lex_pattern[OF assms] parse_pattern
        close_frame_def empty_frame_def)

lemma detect_returns_on_plain_words:
  assumes "\<forall>w\<in>set (split_whitespace (trim (toLowerCase brandName))). plain_word w"
  shows "\<exists>r. detectBrandMention text brandName = Returned r"
  by (simp add: detectBrandMention_def Let_def RegExp_plain[OF assms] split: option.splits)

text \<open>The second pass on brand words free of pattern syntax: a segment with a loose
  occurrence of the words is matched, so the call answers with that segment or an
  earlier one.\<close>

lemma seq_of_Cons: "seq_of (r # rs) = Seq r (seq_of rs)"
  by (simp add: seq_of_def)

lemma residuals_seq_append:
  "residuals (seq_of (rs @ rs')) st =
     concat (map (residuals (seq_of rs')) (residuals (seq_of rs) st))"
proof (induction rs arbitrary: st)
  case Nil
  show ?case by (simp add: seq_of_def)
next
  case (Cons r rs)
  have "\<And>xs. concat (map (residuals (seq_of (rs @ rs'))) xs) =
          concat (map (residuals (seq_of rs')) (concat (map (residuals (seq_of rs)) xs)))"
    subgoal for xs by (induction xs) (simp_all add: Cons)
    done
  then show ?case by (simp add: seq_of_def)
qed

lemma residuals_word:
  "same_letters (take (length w) s) w \<Longrightarrow>
   \<exists>q. residuals (seq_of (map Chr w)) (p, s) = [(q, drop (length w) s)]"
proof (induction w arbitrary: p s)
  case Nil
  show ?case by (simp add: seq_of_def)
next
  case (Cons c w)
  then obtain d s' where s: "s = d # s'" by (cases s) (auto simp: same_letters_def)
  with Cons.prems have d: "canonicalize d = canonicalize c"
    and w: "same_letters (take (length w) s') w"
    by (simp_all add: same_letters_def)
  from Cons.IH[OF w, of "Some d"] obtain q where
    "residuals (seq_of (map Chr w)) (Some d, s') = [(q, drop (length w) s')]" by blast
  then show ?case using s d by (simp add: seq_of_def)
qed

lemma iterate_star_start: "st \<in> set sts \<Longrightarrow> st \<in> set (iterate_star f n sts)"
  by (cases n) auto

lemma iterate_star_run:
  "(p, s) \<in> set sts \<Longrightarrow> k \<le> n \<Longrightarrow> k \<le> length (takeWhile P s) \<Longrightarrow>
   \<exists>q. (q, drop k s) \<in> set (iterate_star (consume P) n sts)"
proof (induction k arbitrary: p s n sts)
  case 0
  then show ?case using iterate_star_start[of "(p, s)" sts] by auto
next
  case (Suc k)
  then obtain n' where n: "n = Suc n'" by (cases n) auto
  from Suc.prems(3) obtain c s' where s: "s = c # s'" and c: "P c"
    by (cases s) (auto split: if_splits)
  let ?next = "concat (map (\<lambda>st. filter (\<lambda>st'. length (snd st') < length (snd st))
                               (consume P st)) sts)"
  have "(Some c, s') \<in> set ?next"
    using Suc.prems(1) s c by (auto intro!: bexI[of _ "(p, c # s')"])
  moreover have "k \<le> n'" using Suc.prems(2) n by simp
  moreover have "k \<le> length (takeWhile P s')" using Suc.prems(3) s c by simp
  ultimately obtain q where "(q, drop k s') \<in> set (iterate_star (consume P) n' ?next)"
    using Suc.IH by blast
  then show ?case using n s by auto
qed

lemma separator_class_matches:
  "isSeparator d \<Longrightarrow>
   list_ex (\<lambda>i. item_matches i d) [CEsc Space, CChar CHR ''-'', CChar CHR ''_''] \<noteq> False"
  by (auto simp: isSeparator_def)

lemma takeWhile_mono_length:
  "(\<And>x. P x \<Longrightarrow> Q x) \<Longrightarrow> length (takeWhile P xs) \<le> length (takeWhile Q xs)"
  by (induction xs) auto

lemma residuals_separators:
  assumes "k \<le> length (takeWhile isSeparator s)"
  shows "\<exists>q. (q, drop k s) \<in> set (residuals (Star separator_class) (p, s))"
proof -
  let ?P = "\<lambda>d. list_ex (\<lambda>i. item_matches i d) [CEsc Space, CChar CHR ''-'', CChar CHR ''_''] \<noteq> False"
  have "length (takeWhile isSeparator s) \<le> length (takeWhile ?P s)"
    by (rule takeWhile_mono_length) (rule separator_class_matches)
  with assms have k: "k \<le> length (takeWhile ?P s)" by simp
  moreover have "k \<le> length s"
    using assms length_takeWhile_le[of isSeparator s] by simp
  ultimately have "\<exists>q. (q, drop k s) \<in> set (iterate_star (consume ?P) (length s) [(p, s)])"
    by (intro iterate_star_run) auto
  moreover have "residuals separator_class = consume ?P"
    by (rule ext) (simp only: separator_class_def residuals.simps)
  ultimately show ?thesis by (simp only: residuals.simps snd_conv)
qed

lemma residuals_loose_at:
  "loose_at ws s \<Longrightarrow> residuals (seq_of (pattern_terms ws)) (p, s) \<noteq> []"
proof (induction ws arbitrary: p s rule: pattern_terms.induct)
  case 1
  show ?case by (simp add: seq_of_def)
next
  case (2 w)
  then have "same_letters (take (length w) s) w" by simp
  from residuals_word[OF this, of p] show ?case by auto
next
  case (3 w v ws)
  from 3(2) have w: "same_letters (take (length w) s) w"
    and e: "list_ex (\<lambda>k. loose_at (v # ws) (drop k (drop (length w) s)))
              [0..<Suc (length (takeWhile isSeparator (drop (length w) s)))]"
    by (simp_all only: loose_at.simps)
  from e obtain k where
    "k \<in> set [0..<Suc (length (takeWhile isSeparator (drop (length w) s)))]"
    and l: "loose_at (v # ws) (drop k (drop (length w) s))"
    unfolding list_ex_iff by blast
  then have k: "k \<le> length (takeWhile isSeparator (drop (length w) s))"
    by (simp del: upt_Suc)
  obtain q where q: "residuals (seq_of (map Chr w)) (p, s) = [(q, drop (length w) s)]"
    using residuals_word[OF w] by blast
  obtain q' where q': "(q', drop k (drop (length w) s))
      \<in> set (residuals (Star separator_class) (q, drop (length w) s))"
    using residuals_separators[OF k] by blast
  have n: "residuals (seq_of (pattern_terms (v # ws))) (q', drop k (drop (length w) s)) \<noteq> []"
    using 3(1)[OF l] .
  let ?rest = "pattern_terms (v # ws)"
  have "residuals (seq_of (pattern_terms (w # v # ws))) (p, s) =
          residuals (seq_of (map Chr w @ Star separator_class # ?rest)) (p, s)"
    by simp
  also have "\<dots> = concat (map (residuals (seq_of (Star separator_class # ?rest)))
                        (residuals (seq_of (map Chr w)) (p, s)))"
    by (rule residuals_seq_append)
  also have "\<dots> = residuals (seq_of (Star separator_class # ?rest)) (q, drop (length w) s)"
    by (simp only: q list.map concat.simps append_Nil2)
  also have "\<dots> = concat (map (residuals (seq_of ?rest))
                        (residuals (Star separator_class) (q, drop (length w) s)))"
    by (simp only: seq_of_Cons residuals.simps)
  finally show ?case using q' n by (auto simp del: pattern_terms.simps residuals.simps)
qed

lemma positions_drop:
  "k \<le> length s \<Longrightarrow> \<exists>q. (q, drop k s) \<in> set (positions p s)"
proof (induction s arbitrary: k p)
  case Nil
  then show ?case by simp
next
  case (Cons c s)
  show ?case
  proof (cases k)
    case 0
    then show ?thesis by auto
  next
    case (Suc k')
    with Cons.prems have "k' \<le> length s" by simp
    from Cons.IH[OF this, of "Some c"] show ?thesis using Suc by auto
  qed
qed

lemma regex_test_loosely_contains:
  assumes "loosely_contains ws s"
  shows "regex_test (seq_of (pattern_terms ws)) s"
proof -
  from assms obtain k where "k \<in> set [0..<Suc (length s)]" and l: "loose_at ws (drop k s)"
    unfolding loosely_contains_def list_ex_iff by blast
  then have k: "k \<le> length s" by (simp del: upt_Suc)
  obtain q where "(q, drop k s) \<in> set (positions None s)"
    using positions_drop[OF k] by blast
  moreover have "residuals (seq_of (pattern_terms ws)) (q, drop k s) \<noteq> []"
    using l by (rule residuals_loose_at)
  ultimately show ?thesis unfolding regex_test_def list_ex_iff by blast
qed

lemma loose_pass_first:
  "i < length segments \<Longrightarrow> regex_test re (segments ! i) \<Longrightarrow>
   \<exists>k\<le>i. loose_pass j segments re = Some (mentioned_at (j + k))"
proof (induction segments arbitrary: i j)
  case Nil
  then show ?case by simp
next
  case (Cons s segments)
  show ?case
  proof (cases "regex_test re s")
    case True
    then show ?thesis by auto
  next
    case False
    with Cons.prems obtain i' where i: "i = Suc i'" by (cases i) auto
    with Cons.prems have "i' < length segments" "regex_test re (segments ! i')" by auto
    from Cons.IH[OF this, of "j + 1"] obtain k where "k \<le> i'"
      "loose_pass (j + 1) segments re = Some (mentioned_at (j + 1 + k))" by blast
    then show ?thesis using False i by (auto intro!: exI[of _ "Suc k"])
  qed
qed

lemma detect_loose_plain_words:
  assumes "text \<noteq> []" "brandName \<noteq> []"
    and "\<forall>w\<in>set (split_whitespace (trim (toLowerCase brandName))). plain_word w"
    and "exact_pass 0 (split_segments text) (trim (toLowerCase brandName)) = None"
    and "i < length (split_segments text)"
    and "loosely_contains (split_whitespace (trim (toLowerCase brandName))) (split_segments text ! i)"
  shows "\<exists>k\<le>i. detectBrandMention text brandName
                  = Returned \<lparr>mentioned = True, position = Some (k + 1)\<rparr>"
proof -
  let ?ws = "split_whitespace (trim (toLowerCase brandName))"
  have "regex_test (seq_of (pattern_terms ?ws)) (split_segments text ! i)"
    using assms(6) by (rule regex_test_loosely_contains)
  from loose_pass_first[OF assms(5) this, of 0] obtain k where "k \<le> i"
    "loose_pass 0 (split_segments text) (seq_of (pattern_terms ?ws)) = Some (mentioned_at k)"
    by auto
  then show ?thesis using assms(1,2,4)
    by (auto simp: detectBrandMention_def Let_def RegExp_plain[OF assms(3)] mentioned_at_def)
qed

text \<open>
  C9. With an empty brand name, and with an empty text, \<^verbatim>\<open>detectBrandMention\<close> returns
  \<^verbatim>\<open>{ mentioned: false, position: null }\<close>: it returns, it does not throw. No pass has
  run: the first pass would have found the empty brand name in the first segment.
\<close>

theorem detect_empty_argument:
  "detectBrandMention text [] = Returned \<lparr>mentioned = False, position = None\<rparr> \<and>
   detectBrandMention [] brandName = Returned \<lparr>mentioned = False, position = None\<rparr>"
  by (simp add: detectBrandMention_def not_mentioned_def)

text \<open>
  C10. A brand name that is not empty and holds white space only trims to the empty
  string, which the first segment of any non-empty text includes: the result is
  \<^verbatim>\<open>{ mentioned: true, position: 1 }\<close>.
\<close>

theorem detect_whitespace_brand:
  assumes "text \<noteq> []" "brandName \<noteq> []" "\<forall>c\<in>set brandName. isWhiteSpace c"
  shows "detectBrandMention text brandName = Returned \<lparr>mentioned = True, position = Some 1\<rparr>"
proof -
  have b: "trim (toLowerCase brandName) = []" using assms(3) by (rule trim_all_whitespace)
  obtain s ss where s: "split_segments text = s # ss" by (cases "split_segments text") auto
  show ?thesis using assms(1,2)
    by (simp add: detectBrandMention_def Let_def b s mentioned_at_def)
qed

theorem detect_whitespace_brand_witness:
  "list_all isWhiteSpace ''   '' \<and>
   detectBrandMention ''Acme is fine.'' ''   '' = Returned \<lparr>mentioned = True, position = Some 1\<rparr>"
proof -
  have h: "\<forall>c\<in>set ''   ''. isWhiteSpace c" by (simp add: isWhiteSpace_def code_def)
  have "detectBrandMention ''Acme is fine.'' ''   ''
          = Returned \<lparr>mentioned = True, position = Some 1\<rparr>"
    by (rule detect_whitespace_brand[OF _ _ h]) simp_all
  with h show ?thesis by (simp add: list_all_iff)
qed

text \<open>
  C6. Whenever \<^verbatim>\<open>detectBrandMention\<close> returns a result, \<^verbatim>\<open>position\<close> is \<^verbatim>\<open>null\<close> exactly when
  \<^verbatim>\<open>mentioned\<close> is false, and is a positive integer when \<^verbatim>\<open>mentioned\<close> is true.
\<close>

theorem detect_result_invariant:
  assumes "detectBrandMention text brandName = Returned r"
  shows "(position r = None \<longleftrightarrow> \<not> mentioned r) \<and>
         (mentioned r \<longrightarrow> (\<exists>p. position r = Some p \<and> 0 < p))"
  using detect_result_shape[OF assms] by (auto simp: not_mentioned_def mentioned_at_def)

theorem detect_result_invariant_witness:
  "detectBrandMention ''One. Two has HubSpot.'' ''Hubspot''
     = Returned \<lparr>mentioned = True, position = Some 2\<rparr> \<and>
   (\<exists>p. position \<lparr>mentioned = True, position = Some 2\<rparr> = Some p \<and> 0 < p)"
proof -
  have r: "detectBrandMention ''One. Two has HubSpot.'' ''Hubspot''
             = Returned \<lparr>mentioned = True, position = Some 2\<rparr>"
    by code_simp
  from detect_result_invariant[OF r] show ?thesis using r by simp
qed

text \<open>
  C5, as amended. For a non-empty text and a non-empty brand name: when segment \<open>i\<close>
  (counted from 0) is the first segment whose lower-cased text includes the lower-cased,
  trimmed brand name, the result is \<^verbatim>\<open>mentioned: true\<close> with position \<open>i + 1\<close>.
\<close>

theorem detect_exact_first_segment:
  assumes "text \<noteq> []" "brandName \<noteq> []"
    and "i < length (split_segments text)"
    and "includes_str (toLowerCase (split_segments text ! i)) (trim (toLowerCase brandName))"
    and "\<forall>j<i. \<not> includes_str (toLowerCase (split_segments text ! j))
                        (trim (toLowerCase brandName))"
  shows "detectBrandMention text brandName
           = Returned \<lparr>mentioned = True, position = Some (i + 1)\<rparr>"
  using assms(1,2) exact_pass_first[OF assms(3,4,5), of 0]
  by (simp add: detectBrandMention_def Let_def mentioned_at_def)

theorem detect_exact_first_segment_witness:
  "includes_str (toLowerCase (split_segments ''One. Two has HubSpot.'' ! 1))
     (trim (toLowerCase ''Hubspot '')) \<and>
   detectBrandMention ''One. Two has HubSpot.'' ''Hubspot ''
     = Returned \<lparr>mentioned = True, position = Some 2\<rparr>"
proof -
  have l: "1 < length (split_segments ''One. Two has HubSpot.'')" by code_simp
  have a: "includes_str (toLowerCase (split_segments ''One. Two has HubSpot.'' ! 1))
             (trim (toLowerCase ''Hubspot ''))" by code_simp
  have "\<not> includes_str (toLowerCase (split_segments ''One. Two has HubSpot.'' ! 0))
             (trim (toLowerCase ''Hubspot ''))" by code_simp
  then have b: "\<forall>j<1. \<not> includes_str (toLowerCase (split_segments ''One. Two has HubSpot.'' ! j))
             (trim (toLowerCase ''Hubspot ''))" by simp
  have "detectBrandMention ''One. Two has HubSpot.'' ''Hubspot ''
          = Returned \<lparr>mentioned = True, position = Some (1 + 1)\<rparr>"
    by (rule detect_exact_first_segment[OF _ _ l a b]) simp_all
  with a show ?thesis by simp
qed

text \<open>
  C5 as stated does not hold for the empty brand name: every segment includes the
  empty string, and the guard at the head of the function answers
  \<^verbatim>\<open>{ mentioned: false, position: null }\<close>.
\<close>

theorem detect_exact_empty_brand_counterexample:
  "''Acme is fine.'' \<noteq> [] \<and>
   includes_str (toLowerCase (split_segments ''Acme is fine.'' ! 0)) (trim (toLowerCase [])) \<and>
   detectBrandMention ''Acme is fine.'' [] = Returned \<lparr>mentioned = False, position = None\<rparr>"
  by (simp add: detectBrandMention_def not_mentioned_def trim_def toLowerCase_def)


text \<open>
  C1. The claim is that \<^verbatim>\<open>detectBrandMention\<close> never throws. The brand words go into
  the pattern unescaped: for the brand \<^verbatim>\<open>C++\<close> and a text that does not contain it the
  pattern is \<^verbatim>\<open>c++\<close>, and \<^verbatim>\<open>new RegExp\<close> throws a \<^verbatim>\<open>SyntaxError\<close> (nothing to repeat).
\<close>

theorem detect_throws_on_metacharacters:
  "detectBrandMention ''Python and Java are popular.'' ''C++'' = Thrown SyntaxError"
  by code_simp

text \<open>
  C2. The claim is that a hit of the partial-word pass gives \<^verbatim>\<open>mentioned: true\<close>. The
  inner loop adds up the lengths of the segments, which do not count the periods and
  line feeds between them, so the sum can stay below the index of the word: then the loop
  ends without a \<^verbatim>\<open>return\<close>. In the numbered list the word \<^verbatim>\<open>acme\<close> (contained in the
  brand \<^verbatim>\<open>acmecorp\<close>) stands at index 19 and the segment lengths add up to 18.
\<close>

theorem detect_partial_word_missed:
  "indexOf (toLowerCase numbered_list) ''acme'' = 19 \<and>
   sum_list (map (\<lambda>s. int (length s)) (split_segments numbered_list)) = 18 \<and>
   includes_str (strip_non_alnum (trim (toLowerCase ''AcmeCorp''))) ''acme'' \<and>
   detectBrandMention numbered_list ''AcmeCorp''
     = Returned \<lparr>mentioned = False, position = None\<rparr>"
  by code_simp

text \<open>
  C7. The example of the claim holds: the pattern \<^verbatim>\<open>acme[\s\-\_]*corp\<close> matches the first
  segment. The general claim fails for brand words with pattern syntax in them, for the
  reason given at C1: the segment \<^verbatim>\<open>Use C++-Builder now\<close> contains the words \<^verbatim>\<open>c++\<close> and
  \<^verbatim>\<open>builder\<close> joined by a hyphen, and the call throws.
\<close>

theorem detect_loose_punctuation:
  "detectBrandMention ''We recommend Acme-Corp for this.'' ''Acme Corp''
     = Returned \<lparr>mentioned = True, position = Some 1\<rparr> \<and>
   detectBrandMention ''Use C++-Builder now.'' ''C++ Builder'' = Thrown SyntaxError"
  by code_simp


section \<open>Properties of the generation loop and of the handler\<close>

lemma blank_Nil [simp]: "blank []"
  by (simp add: blank_def trim_def)

text \<open>What an earlier iteration leaves in \<^verbatim>\<open>geminiResponse\<close> when it fails.\<close>

definition leftover :: "string option \<Rightarrow> bool" where
  "leftover g = (case g of None \<Rightarrow> True | Some t \<Rightarrow> blank t)"

lemma extract_text_leftover:
  assumes "yields_no_text (Responds r)" "leftover g"
  shows "leftover (extract_text r g)"
  using assms
  by (auto simp: yields_no_text_def leftover_def extract_text_def after_text_call_def
        after_candidates_def falsy_def
      split: text_member.splits option.splits list.splits if_splits)

lemma try_models_exhausted:
  "\<forall>m\<in>set ms. yields_no_text (gen m) \<Longrightarrow> leftover g \<Longrightarrow> try_models gen ms g = None"
proof (induction ms arbitrary: g)
  case Nil
  then show ?case by simp
next
  case (Cons m ms)
  show ?case
  proof (cases "gen m")
    case CallFails
    with Cons show ?thesis by simp
  next
    case (Responds r)
    with Cons.prems have "leftover (extract_text r g)"
      by (auto intro: extract_text_leftover)
    moreover from Cons.prems have "\<forall>m\<in>set ms. yields_no_text (gen m)" by simp
    ultimately show ?thesis using Responds Cons.IH
      by (auto simp: leftover_def split: option.splits)
  qed
qed

lemma try_models_name:
  "try_models gen ms g = Some (t, m) \<Longrightarrow> m \<in> set ms \<and> \<not> blank t"
  by (induction ms arbitrary: g) (auto split: attempt.splits option.splits if_splits)

text \<open>The loop returns the text that \<^verbatim>\<open>text()\<close> gives for the first model that answers
  with a text that is not blank, when no text can come from the models before it.\<close>

lemma try_models_first_text:
  assumes "\<forall>x\<in>set pre. yields_no_text (gen x)" "leftover g"
    and "gen m = Responds r" "text_member r = TextReturns t" "\<not> blank t"
  shows "try_models gen (pre @ m # post) g = Some (t, m)"
  using assms(1,2)
proof (induction pre arbitrary: g)
  case Nil
  have "extract_text r g = Some t"
    using assms(4,5) by (auto simp: extract_text_def after_text_call_def after_candidates_def falsy_def)
  with assms(3,5) show ?case by auto
next
  case (Cons x pre)
  show ?case
  proof (cases "gen x")
    case CallFails
    with Cons show ?thesis by simp
  next
    case (Responds r')
    with Cons.prems have l: "leftover (extract_text r' g)"
      by (auto intro: extract_text_leftover)
    from Cons.prems have "\<forall>x\<in>set pre. yields_no_text (gen x)" by simp
    from Cons.IH[OF this] l show ?thesis using Responds
      by (auto simp: leftover_def split: option.splits)
  qed
qed

text \<open>When the detection returns on the generated text, the handler answers with
  status 200 and without \<^verbatim>\<open>errorOccurred\<close>.\<close>

lemma check_brand_success:
  assumes "prompt \<noteq> []" "brandName \<noteq> []" "\<not> blank prompt" "\<not> blank brandName"
    and "detectBrandMention (geminiResponse (generate gen)) brandName = Returned d"
  shows "check_brand gen prompt brandName =
           Returned (Success (shape prompt brandName d (geminiResponse (generate gen))
                                (usedCannedResponse (generate gen)) None))"
  using assms by (simp add: check_brand_def blank_def Let_def)

text \<open>
  C3, as amended. When every model fails or yields only empty or white-space text, the
  outcome holds the canned text and \<^verbatim>\<open>usedCannedResponse\<close> is true, and \<^verbatim>\<open>modelUsed\<close> still
  holds its initial value \<^verbatim>\<open>MODEL_NAME\<close>. In every outcome \<^verbatim>\<open>modelUsed\<close> is a model name:
  it is never \<^verbatim>\<open>null\<close>.
\<close>

theorem generate_all_fail:
  assumes "\<forall>m\<in>set MODEL_OPTIONS. yields_no_text (gen m)"
  shows "generate gen =
           \<lparr>geminiResponse = getCannedResponse, modelUsed = Some MODEL_NAME,
            usedCannedResponse = True\<rparr> \<and>
         (\<exists>m\<in>set MODEL_OPTIONS. modelUsed (generate gen') = Some m)"
proof
  have "try_models gen MODEL_OPTIONS None = None"
    using assms by (rule try_models_exhausted) (simp add: leftover_def)
  then show "generate gen =
           \<lparr>geminiResponse = getCannedResponse, modelUsed = Some MODEL_NAME,
            usedCannedResponse = True\<rparr>"
    by (simp add: generate_def)
next
  show "\<exists>m\<in>set MODEL_OPTIONS. modelUsed (generate gen') = Some m"
  proof (cases "try_models gen' MODEL_OPTIONS None")
    case None
    then show ?thesis by (simp add: generate_def MODEL_NAME_def MODEL_OPTIONS_def)
  next
    case (Some tm)
    then obtain t m where "try_models gen' MODEL_OPTIONS None = Some (t, m)" by (cases tm) auto
    with try_models_name[OF this] show ?thesis by (auto simp: generate_def)
  qed
qed

theorem generate_all_fail_witness:
  "list_all (\<lambda>m. yields_no_text (answers ''  '' m)) MODEL_OPTIONS \<and>
   generate (answers ''  '') =
     \<lparr>geminiResponse = getCannedResponse, modelUsed = Some ''gemini-2.5-flash'',
      usedCannedResponse = True\<rparr>"
proof -
  have b: "blank ''  ''" by code_simp
  have h: "\<forall>m\<in>set MODEL_OPTIONS. yields_no_text (answers ''  '' m)"
    by (simp add: yields_no_text_def answers_def b)
  from generate_all_fail[OF h] h show ?thesis
    by (simp add: list_all_iff MODEL_NAME_def MODEL_OPTIONS_def)
qed

text \<open>C3 as stated fails: after a run in which every call fails, \<^verbatim>\<open>modelUsed\<close> is
  \<^verbatim>\<open>gemini-2.5-flash\<close>, not \<^verbatim>\<open>null\<close>, while \<^verbatim>\<open>usedCannedResponse\<close> is true.\<close>

theorem generate_modelUsed_counterexample:
  "usedCannedResponse (generate (\<lambda>m. CallFails)) \<and>
   modelUsed (generate (\<lambda>m. CallFails)) = Some ''gemini-2.5-flash'' \<and>
   modelUsed (generate (\<lambda>m. CallFails)) \<noteq> None"
  by (simp add: generate_def MODEL_OPTIONS_def MODEL_NAME_def)

text \<open>
  C4. The claim is that the first model that produces text that is not blank gives the
  outcome. \<^verbatim>\<open>geminiResponse\<close> keeps the two spaces of the first model; the second model,
  read from a fresh variable, yields \<^verbatim>\<open>Hello\<close> from its parts, but the two spaces are
  truthy, the parts are not read, and the outcome is the canned text.
\<close>

theorem generate_skips_partial_response:
  "extract_text partial_second None = Some ''Hello'' \<and>
   extract_text partial_second (Some ''  '') = Some ''  '' \<and>
   generate blank_then_partial =
     \<lparr>geminiResponse = getCannedResponse, modelUsed = Some ''gemini-2.5-flash'',
      usedCannedResponse = True\<rparr>"
  by code_simp

text \<open>
  C8. The claim is that a failure of the detection still gives a success response with
  the canned text. The outer \<^verbatim>\<open>catch\<close> calls \<^verbatim>\<open>detectBrandMention\<close> again with the same
  brand name, which throws again: the exception leaves the handler and no response is
  sent.
\<close>

theorem check_brand_throws:
  "check_brand (answers ''Python and Java are popular.'') ''best language'' ''C++''
     = Thrown SyntaxError"
  by code_simp

end
